theory Spec2Isabelle
  imports Main
begin

section \<open>Package netsync: the package-level logger (netsync/log.go)\<close>

text \<open>
  \<^verbatim>\<open>var log hdflog.Logger\<close> is a package-level variable of interface type. Its Go zero
  value is the nil interface, modelled as \<open>None\<close>. \<open>hdflog.Logger\<close> is an interface of an
  external library: a logger value is either \<open>hdflog.Disabled\<close> or some logger a caller
  built (identified by a number).
\<close>

datatype Logger = Disabled | Backend nat

record LogState =
  log :: "Logger option"

text \<open>The state of a package's variables before any \<^verbatim>\<open>init\<close> function runs.\<close>

definition zeroLogState :: LogState where
  "zeroLogState = \<lparr>log = None\<rparr>"

definition DisableLog :: "LogState \<Rightarrow> LogState" where
  "DisableLog s = s\<lparr>log := Some Disabled\<rparr>"

definition UseLogger :: "Logger option \<Rightarrow> LogState \<Rightarrow> LogState" where
  "UseLogger logger s = s\<lparr>log := logger\<rparr>"

text \<open>
  The state after package initialisation. Packages addrmgr and database declare
  \<^verbatim>\<open>func init() { DisableLog() }\<close>; the log.go of package netsync declares no
  \<^verbatim>\<open>init\<close> function, so its variable keeps the zero value.
\<close>

definition addrmgrInit :: LogState where
  "addrmgrInit = DisableLog zeroLogState"

definition databaseInit :: LogState where
  "databaseInit = DisableLog zeroLogState"

definition netsyncInit :: LogState where
  "netsyncInit = zeroLogState"

text \<open>
  A logging call \<^verbatim>\<open>log.Infof(...)\<close> is a method call on the interface value: on the nil
  interface Go panics with a nil dereference; \<open>hdflog.Disabled\<close> discards the message;
  any other logger receives it.
\<close>

datatype LogPanic = NilInterfaceDereference

definition logCall :: "LogState \<Rightarrow> string \<Rightarrow> LogPanic + (nat \<times> string) option" where
  "logCall s msg =
     (case log s of
        None \<Rightarrow> Inl NilInterfaceDereference
      | Some Disabled \<Rightarrow> Inr None
      | Some (Backend b) \<Rightarrow> Inr (Some (b, msg)))"

text \<open>What a caller of the package can do with the logger, and a run of such calls.\<close>

datatype LogOp = CallDisableLog | CallUseLogger "Logger option" | CallLog string

fun isCallLog :: "LogOp \<Rightarrow> bool" where
  "isCallLog (CallLog m) = True"
| "isCallLog CallDisableLog = False"
| "isCallLog (CallUseLogger l) = False"

fun applyLogOp :: "LogOp \<Rightarrow> LogState \<Rightarrow> LogState" where
  "applyLogOp CallDisableLog s = DisableLog s"
| "applyLogOp (CallUseLogger l) s = UseLogger l s"
| "applyLogOp (CallLog m) s = s"

definition runLogOps :: "LogOp list \<Rightarrow> LogState \<Rightarrow> LogState" where
  "runLogOps ops s = fold applyLogOp ops s"


section \<open>Package rpctest: the path of the compiled executable\<close>

text \<open>
  The package variables \<^verbatim>\<open>executablePath\<close> (``the empty string until hdfd is
  compiled'') and, as a ghost counter, the number of times the build command has been run.
  \<^verbatim>\<open>compileMtx\<close> is held for the whole body of \<^verbatim>\<open>hdfdExecutablePath\<close>, so calls
  happen one after the other; the model is sequential.
\<close>

record RpcTestState =
  executablePath :: string
  buildRuns :: nat

text \<open>
  What a call reads from outside the function: \<^verbatim>\<open>baseDir()\<close> (declared elsewhere in
  the package; an error or a directory), \<^verbatim>\<open>runtime.GOOS\<close>, \<^verbatim>\<open>filepath.Join\<close> of the
  Go library, and the outcome of \<^verbatim>\<open>cmd.Run()\<close> for the given command line
  (\<open>None\<close> is the nil error).
\<close>

record BuildEnv =
  baseDir :: "string + string"
  GOOS :: string
  filepathJoin :: "string \<Rightarrow> string \<Rightarrow> string"
  cmdRun :: "string list \<Rightarrow> string option"

definition hdfdExecutablePath ::
  "BuildEnv \<Rightarrow> RpcTestState \<Rightarrow> (string + string) \<times> RpcTestState" where
  "hdfdExecutablePath env s =
     (if length (executablePath s) \<noteq> 0 then (Inr (executablePath s), s)
      else
        case baseDir env of
          Inl err \<Rightarrow> (Inl err, s)
        | Inr testDir \<Rightarrow>
            let outputPath = filepathJoin env testDir ''hdfd'';
                outputPath = (if GOOS env = ''windows'' then outputPath @ ''.exe''
                              else outputPath);
                s1 = s\<lparr>buildRuns := buildRuns s + 1\<rparr>
            in case cmdRun env [''go'', ''build'', ''-o'', outputPath,
                                ''github.com/ifishnet/hdfd''] of
                 Some err \<Rightarrow> (Inl (''Failed to build hdfd: '' @ err), s1)
               | None \<Rightarrow> (Inr outputPath, s1\<lparr>executablePath := outputPath\<rparr>))"

text \<open>A sequence of calls, each in the environment it finds.\<close>

fun callAll :: "BuildEnv list \<Rightarrow> RpcTestState \<Rightarrow> (string + string) list \<times> RpcTestState" where
  "callAll [] s = ([], s)"
| "callAll (env # envs) s =
     (let (r, s1) = hdfdExecutablePath env s;
          (rs, s2) = callAll envs s1
      in (r # rs, s2))"

text \<open>Two environments: one where the build succeeds, one where nothing works.\<close>

definition unixEnv :: BuildEnv where
  "unixEnv = \<lparr>baseDir = Inr ''/tmp/rpctest'', GOOS = ''linux'',
              filepathJoin = (\<lambda>d f. d @ ''/'' @ f), cmdRun = (\<lambda>args. None)\<rparr>"

definition brokenEnv :: BuildEnv where
  "brokenEnv = \<lparr>baseDir = Inl ''no home'', GOOS = ''windows'',
                filepathJoin = (\<lambda>d f. d @ ''/'' @ f),
                cmdRun = (\<lambda>args. Some ''exit status 1'')\<rparr>"


section \<open>The request tracker of the sync manager\<close>

text \<open>
  Modelled from the spec: the request tracker of the sync manager (package netsync's
  manager is not among the sources; only \<open>Config\<close>, \<open>PeerNotifier\<close> and the package
  logger are). The specification's data model: ``\<open>requestedBlocks: map<BlockHash, PeerID>\<close>,
  \<open>requestedTxns: map<TxHash, PeerID>\<close>''. Hashes, peer identities and timestamps are
  numbers here. The kind of a requested item is the kind of an inventory item,
  ``\<open>kind \<in> {Block, Tx, FilteredBlock}\<close>''; a filtered block is requested by its block
  hash and shares the map of the blocks.
\<close>

type_synonym Hash = nat
type_synonym PeerID = nat
type_synonym Timestamp = nat

datatype Kind = Block | Tx | FilteredBlock

record Tracker =
  requestedBlocks :: "Hash \<rightharpoonup> PeerID"
  requestedTxns :: "Hash \<rightharpoonup> PeerID"

text \<open>
  Modelled from the spec: the map of the tracker that holds the reservations of a kind
  (the manager's source is missing), and its replacement by an updated map.
\<close>

definition reservations :: "Tracker \<Rightarrow> Kind \<Rightarrow> (Hash \<rightharpoonup> PeerID)" where
  "reservations t k = (case k of Tx \<Rightarrow> requestedTxns t | _ \<Rightarrow> requestedBlocks t)"

definition setReservations :: "Kind \<Rightarrow> (Hash \<rightharpoonup> PeerID) \<Rightarrow> Tracker \<Rightarrow> Tracker" where
  "setReservations k m t = (case k of Tx \<Rightarrow> t\<lparr>requestedTxns := m\<rparr> | _ \<Rightarrow> t\<lparr>requestedBlocks := m\<rparr>)"

text \<open>
  Modelled from the spec: \<open>TryReserve\<close> of the missing request tracker.
  ``\<open>TryReserve(peerID, hash, kind) -> bool\<close> --- succeeds only if \<open>hash\<close> is not already
  reserved by any peer.''
\<close>

definition TryReserve :: "PeerID \<Rightarrow> Hash \<Rightarrow> Kind \<Rightarrow> Tracker \<Rightarrow> bool \<times> Tracker" where
  "TryReserve peerID h k t =
     (case reservations t k h of
        None \<Rightarrow> (True, setReservations k ((reservations t k)(h \<mapsto> peerID)) t)
      | Some owner \<Rightarrow> (False, t))"

text \<open>
  Modelled from the spec: \<open>Release\<close> of the missing request tracker.
  ``\<open>Release(peerID, hash, kind)\<close> --- idempotent, removes the reservation if owned by
  \<open>peerID\<close> (no-op otherwise, guarding against stale releases after reassignment).''
\<close>

definition Release :: "PeerID \<Rightarrow> Hash \<Rightarrow> Kind \<Rightarrow> Tracker \<Rightarrow> Tracker" where
  "Release peerID h k t =
     (if reservations t k h = Some peerID
      then setReservations k ((reservations t k)(h := None)) t
      else t)"

text \<open>
  Modelled from the spec: \<open>ReleaseAll\<close> of the missing request tracker.
  ``\<open>ReleaseAll(peerID)\<close> --- used on disconnect/stall'': every entry the peer holds,
  of either map, is removed.
\<close>

definition ReleaseAll :: "PeerID \<Rightarrow> Tracker \<Rightarrow> Tracker" where
  "ReleaseAll peerID t =
     \<lparr>requestedBlocks =
        (\<lambda>h. if requestedBlocks t h = Some peerID then None else requestedBlocks t h),
      requestedTxns =
        (\<lambda>h. if requestedTxns t h = Some peerID then None else requestedTxns t h)\<rparr>"

text \<open>A tracker in which peer 1 has block 7 in flight and peer 2 transaction 9.\<close>

definition exampleTracker :: Tracker where
  "exampleTracker = \<lparr>requestedBlocks = [7 \<mapsto> 1], requestedTxns = [9 \<mapsto> 2]\<rparr>"


section \<open>The orphan pool of the sync manager\<close>

text \<open>
  Modelled from the spec: the orphan block entry and the pool that holds the entries
  (the manager's source is missing). ``\<open>block\<close>, \<open>receivedFrom: PeerID\<close>,
  \<open>expiry: Timestamp\<close>. Indexed by both \<open>blockHash\<close> and \<open>parentHash\<close>.'' Of a block the
  pool reads its hash and its parent's hash. The pool is the list of its entries in the
  order of their insertion, oldest first; the two indexes are searches of the list.
  ``Capacity and expiry are configuration inputs, not hardcoded.''
\<close>

record BlockData =
  blockHash :: Hash
  parentHash :: Hash

record OrphanEntry =
  block :: BlockData
  receivedFrom :: PeerID
  expiry :: Timestamp

type_synonym OrphanPool = "OrphanEntry list"

record PoolConfig =
  orphanCapacity :: nat
  orphanExpiry :: nat

definition entryHash :: "OrphanEntry \<Rightarrow> Hash" where
  "entryHash e = blockHash (block e)"

definition entryParent :: "OrphanEntry \<Rightarrow> Hash" where
  "entryParent e = parentHash (block e)"

definition byBlockHash :: "OrphanPool \<Rightarrow> Hash \<Rightarrow> OrphanEntry option" where
  "byBlockHash pool h = find (\<lambda>e. entryHash e = h) pool"

definition byParentHash :: "OrphanPool \<Rightarrow> Hash \<Rightarrow> OrphanEntry list" where
  "byParentHash pool h = filter (\<lambda>e. entryParent e = h) pool"

text \<open>
  Modelled from the spec: \<open>Add\<close> of the missing orphan pool.
  ``\<open>Add(block, fromPeer) -> evicted: Optional<BlockHash>\<close>''; ``total orphan count
  \<open>\<le>\<close> a fixed capacity; eviction is oldest-first (or random) when capacity is exceeded'';
  ``never silently duplicated''. A block already in the pool is not added again. Else
  the entry is appended, expiring \<open>orphanExpiry\<close> after the time of the call, and when
  the pool then exceeds the capacity its oldest entry is evicted and reported.
\<close>

definition Add ::
  "PoolConfig \<Rightarrow> Timestamp \<Rightarrow> BlockData \<Rightarrow> PeerID \<Rightarrow> OrphanPool \<Rightarrow> Hash option \<times> OrphanPool" where
  "Add cfg now b fromPeer pool =
     (if byBlockHash pool (blockHash b) \<noteq> None then (None, pool)
      else
        case pool @ [\<lparr>block = b, receivedFrom = fromPeer, expiry = now + orphanExpiry cfg\<rparr>] of
          [] \<Rightarrow> (None, [])
        | oldest # rest \<Rightarrow>
            if length (oldest # rest) > orphanCapacity cfg
            then (Some (entryHash oldest), rest)
            else (None, oldest # rest))"

text \<open>
  Modelled from the spec: \<open>Expire\<close> of the missing orphan pool.
  ``\<open>Expire(now) -> list of evicted hashes\<close>'': the entries whose expiry has been reached
  are removed and their hashes reported.
\<close>

definition Expire :: "Timestamp \<Rightarrow> OrphanPool \<Rightarrow> Hash list \<times> OrphanPool" where
  "Expire now pool =
     (map entryHash (filter (\<lambda>e. expiry e \<le> now) pool),
      filter (\<lambda>e. \<not> expiry e \<le> now) pool)"

text \<open>
  Modelled from the spec: \<open>ResolveChildrenOf\<close> of the missing orphan pool.
  ``\<open>ResolveChildrenOf(parentHash) -> ordered list of blocks to reprocess\<close> (children must
  be reprocessed in the order their parent hashes resolve --- a child cannot be processed
  before its parent, and chains of orphans resolve transitively)''. The hashes that have
  resolved wait in a queue; the entries parented on the first of them leave the pool, are
  appended to the result, and their hashes join the end of the queue.
\<close>

function resolveFrom :: "Hash list \<Rightarrow> OrphanPool \<Rightarrow> BlockData list \<times> OrphanPool" where
  "resolveFrom [] pool = ([], pool)"
| "resolveFrom (h # queue) pool =
     (let children = byParentHash pool h;
          rest = filter (\<lambda>e. entryParent e \<noteq> h) pool;
          (more, pool') = resolveFrom (queue @ map entryHash children) rest
      in (map block children @ more, pool'))"
  by pat_completeness auto
termination
proof (relation "measure (\<lambda>(queue, pool). 2 * length pool + length queue)")
  show "wf (measure (\<lambda>(queue, pool). 2 * length pool + length queue))"
    by simp
next
  fix h :: Hash and queue :: "Hash list" and pool :: OrphanPool
    and children rest :: "OrphanEntry list"
  assume c: "children = byParentHash pool h"
    and r: "rest = filter (\<lambda>e. entryParent e \<noteq> h) pool"
  have "length children + length rest = length pool"
    unfolding c r byParentHash_def
    using sum_length_filter_compl [of "\<lambda>e. entryParent e = h" pool] by simp
  then show "((queue @ map entryHash children, rest), h # queue, pool)
        \<in> measure (\<lambda>(queue, pool). 2 * length pool + length queue)"
    by simp
qed

definition ResolveChildrenOf :: "Hash \<Rightarrow> OrphanPool \<Rightarrow> BlockData list \<times> OrphanPool" where
  "ResolveChildrenOf parent pool = resolveFrom [parent] pool"

text \<open>The operations of the pool, each at the time it is called, and a run of them.\<close>

datatype PoolOp = OpAdd BlockData PeerID | OpResolveChildrenOf Hash | OpExpire

fun applyPoolOp :: "PoolConfig \<Rightarrow> Timestamp \<times> PoolOp \<Rightarrow> OrphanPool \<Rightarrow> OrphanPool" where
  "applyPoolOp cfg (now, OpAdd b fromPeer) pool = snd (Add cfg now b fromPeer pool)"
| "applyPoolOp cfg (now, OpResolveChildrenOf h) pool = snd (ResolveChildrenOf h pool)"
| "applyPoolOp cfg (now, OpExpire) pool = snd (Expire now pool)"

definition runPool :: "PoolConfig \<Rightarrow> (Timestamp \<times> PoolOp) list \<Rightarrow> OrphanPool \<Rightarrow> OrphanPool" where
  "runPool cfg ops pool = fold (applyPoolOp cfg) ops pool"

text \<open>What an operation reports as having left the pool.\<close>

fun reported :: "PoolConfig \<Rightarrow> Timestamp \<times> PoolOp \<Rightarrow> OrphanPool \<Rightarrow> Hash set" where
  "reported cfg (now, OpAdd b fromPeer) pool = set_option (fst (Add cfg now b fromPeer pool))"
| "reported cfg (now, OpResolveChildrenOf h) pool = blockHash ` set (fst (ResolveChildrenOf h pool))"
| "reported cfg (now, OpExpire) pool = set (fst (Expire now pool))"

text \<open>What an operation offers to the pool: the block of an \<open>Add\<close>.\<close>

fun offered :: "Timestamp \<times> PoolOp \<Rightarrow> Hash set" where
  "offered (now, OpAdd b fromPeer) = {blockHash b}"
| "offered (now, OpResolveChildrenOf h) = {}"
| "offered (now, OpExpire) = {}"

definition poolHashes :: "OrphanPool \<Rightarrow> Hash list" where
  "poolHashes pool = map entryHash pool"


text \<open>A pool of capacity two, three orphan blocks, and the pool once the first two are in.\<close>

definition examplePoolConfig :: PoolConfig where
  "examplePoolConfig = \<lparr>orphanCapacity = 2, orphanExpiry = 10\<rparr>"

definition exampleB2 :: BlockData where
  "exampleB2 = \<lparr>blockHash = 2, parentHash = 1\<rparr>"

definition exampleB3 :: BlockData where
  "exampleB3 = \<lparr>blockHash = 3, parentHash = 2\<rparr>"

definition exampleB4 :: BlockData where
  "exampleB4 = \<lparr>blockHash = 4, parentHash = 9\<rparr>"

definition exampleFullPool :: OrphanPool where
  "exampleFullPool = [\<lparr>block = exampleB2, receivedFrom = 5, expiry = 10\<rparr>,
                      \<lparr>block = exampleB3, receivedFrom = 5, expiry = 11\<rparr>]"


section \<open>Theorems: the package logger\<close>

lemma runLogOps_only_log_calls:
  "list_all isCallLog ops \<Longrightarrow> runLogOps ops s = s"
proof (induction ops arbitrary: s)
  case Nil
  show ?case by (simp add: runLogOps_def)
next
  case (Cons op ops)
  from Cons.prems obtain m where "op = CallLog m"
    by (cases op) auto
  with Cons show ?case by (simp add: runLogOps_def)
qed

text \<open>
  In the packages that do initialise the logger, a logging call after package
  initialisation is discarded without a panic.
\<close>

lemma initialised_packages_log_safely:
  "logCall addrmgrInit msg = Inr None \<and> logCall databaseInit msg = Inr None"
  by (simp add: addrmgrInit_def databaseInit_def DisableLog_def zeroLogState_def logCall_def)

text \<open>
  C9. Package netsync has no initialiser for its logger: after package initialisation
  \<open>log\<close> is nil. \<open>DisableLog\<close> sets it to the disabled logger and \<open>UseLogger\<close> to the
  logger supplied. As long as the caller has made only logging calls (neither
  \<open>DisableLog\<close> nor \<open>UseLogger\<close>), \<open>log\<close> is still nil and a logging call dereferences
  the nil interface.
\<close>

theorem netsync_log_nil_until_set:
  "log netsyncInit = None
   \<and> log (DisableLog s) = Some Disabled
   \<and> log (UseLogger l s) = l
   \<and> (list_all isCallLog ops \<longrightarrow>
        log (runLogOps ops netsyncInit) = None
        \<and> logCall (runLogOps ops netsyncInit) msg = Inl NilInterfaceDereference)"
  by (simp add: runLogOps_only_log_calls netsyncInit_def zeroLogState_def DisableLog_def
        UseLogger_def logCall_def)

theorem netsync_log_nil_until_set_witness:
  "list_all isCallLog [CallLog ''a'', CallLog ''b'']
   \<and> log (runLogOps [CallLog ''a'', CallLog ''b''] netsyncInit) = None
   \<and> logCall (runLogOps [CallLog ''a'', CallLog ''b''] netsyncInit) ''c''
       = Inl NilInterfaceDereference
   \<and> log (UseLogger (Some (Backend 1)) (DisableLog netsyncInit)) = Some (Backend 1)"
  using netsync_log_nil_until_set
          [of "DisableLog netsyncInit" "Some (Backend 1)" "[CallLog ''a'', CallLog ''b'']" "''c''"]
  by simp


section \<open>Theorems: the cached executable path\<close>

lemma hdfdExecutablePath_hit:
  "executablePath s \<noteq> [] \<Longrightarrow> hdfdExecutablePath env s = (Inr (executablePath s), s)"
  by (simp add: hdfdExecutablePath_def)

lemma hdfdExecutablePath_ok_nonempty:
  assumes join: "\<forall>d. filepathJoin env d ''hdfd'' \<noteq> []"
    and ok: "hdfdExecutablePath env s = (Inr p, s')"
  shows "executablePath s' = p \<and> p \<noteq> []"
proof (cases "executablePath s = []")
  case False
  with ok show ?thesis by (auto simp: hdfdExecutablePath_def)
next
  case True
  with ok join show ?thesis
    by (auto simp: hdfdExecutablePath_def Let_def split: sum.splits option.splits if_splits)
qed

lemma callAll_hit:
  "executablePath s \<noteq> [] \<Longrightarrow>
   callAll envs s = (replicate (length envs) (Inr (executablePath s)), s)"
  by (induction envs) (simp_all add: hdfdExecutablePath_hit)

text \<open>
  C10. \<open>hdfdExecutablePath\<close> caches its result. \<open>filepath.Join\<close> with a non-empty element
  never returns the empty string (Go library); under that reading of the library, once
  a call has returned a path \<open>p\<close> without error, the next call, in whatever environment,
  returns \<open>p\<close> and leaves the state as it is, so the build command is not run again;
  and so does every call of any later sequence of calls.
\<close>

theorem hdfdExecutablePath_cached:
  assumes "\<forall>d. filepathJoin env d ''hdfd'' \<noteq> []"
    and "hdfdExecutablePath env s = (Inr p, s')"
  shows "hdfdExecutablePath env' s' = (Inr p, s')
         \<and> callAll envs s' = (replicate (length envs) (Inr p), s')
         \<and> buildRuns (snd (callAll envs s')) = buildRuns s'"
proof -
  from assms have p: "executablePath s' = p" "p \<noteq> []"
    using hdfdExecutablePath_ok_nonempty by blast+
  then have "hdfdExecutablePath env' s' = (Inr p, s')"
    using hdfdExecutablePath_hit [of s' env'] by simp
  moreover from p have "callAll envs s' = (replicate (length envs) (Inr p), s')"
    using callAll_hit [of s' envs] by simp
  ultimately show ?thesis by simp
qed

theorem hdfdExecutablePath_cached_witness:
  "(\<forall>d. filepathJoin unixEnv d ''hdfd'' \<noteq> [])
   \<and> hdfdExecutablePath unixEnv \<lparr>executablePath = [], buildRuns = 0\<rparr>
       = (Inr ''/tmp/rpctest/hdfd'', \<lparr>executablePath = ''/tmp/rpctest/hdfd'', buildRuns = 1\<rparr>)
   \<and> hdfdExecutablePath brokenEnv \<lparr>executablePath = ''/tmp/rpctest/hdfd'', buildRuns = 1\<rparr>
       = (Inr ''/tmp/rpctest/hdfd'', \<lparr>executablePath = ''/tmp/rpctest/hdfd'', buildRuns = 1\<rparr>)
   \<and> buildRuns (snd (callAll [brokenEnv, unixEnv]
        \<lparr>executablePath = ''/tmp/rpctest/hdfd'', buildRuns = 1\<rparr>)) = 1"
proof -
  have j: "\<forall>d. filepathJoin unixEnv d ''hdfd'' \<noteq> []"
    by (simp add: unixEnv_def)
  have c: "hdfdExecutablePath unixEnv \<lparr>executablePath = [], buildRuns = 0\<rparr>
       = (Inr ''/tmp/rpctest/hdfd'', \<lparr>executablePath = ''/tmp/rpctest/hdfd'', buildRuns = 1\<rparr>)"
    by (simp add: hdfdExecutablePath_def unixEnv_def Let_def)
  from hdfdExecutablePath_cached [OF j c, of brokenEnv "[brokenEnv, unixEnv]"] j c
  show ?thesis by (simp del: callAll.simps)
qed


section \<open>Theorems: the request tracker\<close>

lemma reservations_setReservations:
  "reservations (setReservations k m t) k = m"
  by (cases k) (simp_all add: reservations_def setReservations_def)

lemma setReservations_same:
  "setReservations k (reservations t k) t = t"
  by (cases k) (simp_all add: reservations_def setReservations_def)

lemma setReservations_twice:
  "setReservations k m (setReservations k m' t) = setReservations k m t"
  by (cases k) (simp_all add: setReservations_def)

lemma Release_not_owner:
  "reservations t k h \<noteq> Some p \<Longrightarrow> Release p h k t = t"
  by (simp add: Release_def)

lemma Release_owner_gone:
  "reservations (Release p h k t) k h \<noteq> Some p"
  by (simp add: Release_def reservations_setReservations)

lemma Release_idem: "Release p h k (Release p h k t) = Release p h k t"
  using Release_owner_gone [of p h k t] by (rule Release_not_owner)

lemma Release_other_hash:
  "h' \<noteq> h \<Longrightarrow> reservations (Release p h k t) k' h' = reservations t k' h'"
  by (cases k; cases k') (simp_all add: Release_def reservations_def setReservations_def)

lemma Release_other_map:
  "(k' = Tx) \<noteq> (k = Tx) \<Longrightarrow> reservations (Release p h k t) k' = reservations t k'"
  by (cases k; cases k') (simp_all add: Release_def reservations_def setReservations_def)

lemma Release_owned:
  "reservations t k h = Some p \<Longrightarrow> reservations (Release p h k t) k h = None"
  by (simp add: Release_def reservations_setReservations)

lemma TryReserve_free:
  "reservations t k h = None \<Longrightarrow>
   fst (TryReserve q h k t) \<and> reservations (snd (TryReserve q h k t)) k h = Some q"
  by (simp add: TryReserve_def reservations_setReservations)

text \<open>
  \<open>ReleaseAll\<close> leaves no reservation owned by the peer, keeps every other reservation,
  and frees each hash the peer held for another peer to reserve.
\<close>

lemma ReleaseAll_releases:
  "reservations (ReleaseAll p t) k h \<noteq> Some p"
  by (cases k) (simp_all add: ReleaseAll_def reservations_def)

lemma ReleaseAll_keeps_others:
  "reservations t k h \<noteq> Some p \<Longrightarrow> reservations (ReleaseAll p t) k h = reservations t k h"
  by (cases k) (simp_all add: ReleaseAll_def reservations_def)

lemma ReleaseAll_requestable:
  "reservations t k h = Some p \<Longrightarrow> fst (TryReserve q h k (ReleaseAll p t))"
  by (cases k) (simp_all add: ReleaseAll_def reservations_def TryReserve_def)

text \<open>
  C7. \<open>Release\<close> is idempotent and guarded by the owner. Releasing twice is releasing
  once. When \<open>peerID\<close> owns the reservation of the hash, that reservation is removed;
  otherwise the tracker is unchanged. In either case no reservation of another hash, and
  none in the other map, changes. And after a reassignment (the owner \<open>p\<close> released,
  another peer \<open>q\<close> reserved the hash), a stale \<open>Release\<close> by \<open>p\<close> leaves the tracker,
  with the reservation of \<open>q\<close>, as it is.
\<close>

theorem Release_idempotent_owner_guarded:
  "Release p h k (Release p h k t) = Release p h k t
   \<and> (reservations t k h = Some p \<longrightarrow> reservations (Release p h k t) k h = None)
   \<and> (reservations t k h \<noteq> Some p \<longrightarrow> Release p h k t = t)
   \<and> (h' \<noteq> h \<longrightarrow> reservations (Release p h k t) k' h' = reservations t k' h')
   \<and> ((k' = Tx) \<noteq> (k = Tx) \<longrightarrow> reservations (Release p h k t) k' = reservations t k')
   \<and> (reservations t k h = Some p \<and> q \<noteq> p \<longrightarrow>
        fst (TryReserve q h k (Release p h k t))
        \<and> reservations (snd (TryReserve q h k (Release p h k t))) k h = Some q
        \<and> Release p h k (snd (TryReserve q h k (Release p h k t)))
            = snd (TryReserve q h k (Release p h k t)))"
proof -
  have idem: "Release p h k (Release p h k t) = Release p h k t"
    by (rule Release_idem)
  have owned: "reservations t k h = Some p \<longrightarrow> reservations (Release p h k t) k h = None"
    by (simp add: Release_owned)
  have noop: "reservations t k h \<noteq> Some p \<longrightarrow> Release p h k t = t"
    by (simp add: Release_not_owner)
  have others: "h' \<noteq> h \<longrightarrow> reservations (Release p h k t) k' h' = reservations t k' h'"
    by (simp add: Release_other_hash)
  have other_map:
    "(k' = Tx) \<noteq> (k = Tx) \<longrightarrow> reservations (Release p h k t) k' = reservations t k'"
    using Release_other_map [of k' k p h t] by blast
  have stale: "reservations t k h = Some p \<and> q \<noteq> p \<longrightarrow>
        fst (TryReserve q h k (Release p h k t))
        \<and> reservations (snd (TryReserve q h k (Release p h k t))) k h = Some q
        \<and> Release p h k (snd (TryReserve q h k (Release p h k t)))
            = snd (TryReserve q h k (Release p h k t))"
  proof
    assume a: "reservations t k h = Some p \<and> q \<noteq> p"
    then have free: "reservations (Release p h k t) k h = None"
      by (simp add: Release_owned)
    from TryReserve_free [OF free, of q]
    have r: "fst (TryReserve q h k (Release p h k t))"
      "reservations (snd (TryReserve q h k (Release p h k t))) k h = Some q"
      by simp_all
    from r(2) a have "reservations (snd (TryReserve q h k (Release p h k t))) k h \<noteq> Some p"
      by simp
    then have "Release p h k (snd (TryReserve q h k (Release p h k t)))
            = snd (TryReserve q h k (Release p h k t))"
      by (rule Release_not_owner)
    with r show "fst (TryReserve q h k (Release p h k t))
        \<and> reservations (snd (TryReserve q h k (Release p h k t))) k h = Some q
        \<and> Release p h k (snd (TryReserve q h k (Release p h k t)))
            = snd (TryReserve q h k (Release p h k t))"
      by simp
  qed
  show ?thesis
    by (intro conjI idem owned noop others other_map stale)
qed

theorem Release_idempotent_owner_guarded_witness:
  "reservations exampleTracker Block 7 = Some 1
   \<and> Release 1 7 Block (Release 1 7 Block exampleTracker) = Release 1 7 Block exampleTracker
   \<and> reservations (Release 1 7 Block exampleTracker) Block 7 = None
   \<and> reservations (Release 1 7 Block exampleTracker) Tx 9 = Some 2
   \<and> Release 2 7 Block exampleTracker = exampleTracker
   \<and> fst (TryReserve 3 7 Block (Release 1 7 Block exampleTracker))
   \<and> reservations (snd (TryReserve 3 7 Block (Release 1 7 Block exampleTracker))) Block 7 = Some 3
   \<and> Release 1 7 Block (snd (TryReserve 3 7 Block (Release 1 7 Block exampleTracker)))
       = snd (TryReserve 3 7 Block (Release 1 7 Block exampleTracker))"
proof -
  have o: "reservations exampleTracker Block 7 = Some 1"
    by (simp add: exampleTracker_def reservations_def)
  have n: "reservations exampleTracker Block 7 \<noteq> Some 2"
    by (simp add: exampleTracker_def reservations_def)
  have t: "reservations exampleTracker Tx 9 = Some 2"
    by (simp add: exampleTracker_def reservations_def)
  from Release_idempotent_owner_guarded [of 1 7 Block exampleTracker 9 Tx 3]
    Release_idempotent_owner_guarded [of 2 7 Block exampleTracker 9 Tx 3] o n t
  show ?thesis by simp
qed


section \<open>Theorems: the orphan pool\<close>

lemma byBlockHash_None: "(byBlockHash pool h = None) = (h \<notin> set (poolHashes pool))"
  by (auto simp: byBlockHash_def poolHashes_def find_None_iff)

lemma Add_cases:
  "Add cfg now b p pool =
     (if blockHash b \<in> set (poolHashes pool) then (None, pool)
      else if length pool < orphanCapacity cfg
      then (None, pool @ [\<lparr>block = b, receivedFrom = p, expiry = now + orphanExpiry cfg\<rparr>])
      else (Some (entryHash (hd (pool @ [\<lparr>block = b, receivedFrom = p, expiry = now + orphanExpiry cfg\<rparr>]))),
            tl (pool @ [\<lparr>block = b, receivedFrom = p, expiry = now + orphanExpiry cfg\<rparr>])))"
  by (cases pool) (auto simp: Add_def byBlockHash_None)

lemma Add_length:
  "length pool \<le> orphanCapacity cfg \<Longrightarrow> length (snd (Add cfg now b p pool)) \<le> orphanCapacity cfg"
  by (simp add: Add_cases)

lemma Add_distinct:
  "distinct (poolHashes pool) \<Longrightarrow> distinct (poolHashes (snd (Add cfg now b p pool)))"
  by (cases pool) (auto simp: Add_cases poolHashes_def entryHash_def)

lemma Add_accounts:
  "set (poolHashes (snd (Add cfg now b p pool))) \<union> set_option (fst (Add cfg now b p pool))
     = set (poolHashes pool) \<union> {blockHash b}"
  by (cases pool) (auto simp: Add_cases poolHashes_def entryHash_def)

lemma Add_full:
  assumes "length (oldest # rest) = orphanCapacity cfg"
    and "byBlockHash (oldest # rest) (blockHash b) = None"
  shows "Add cfg now b p (oldest # rest)
     = (Some (entryHash oldest),
        rest @ [\<lparr>block = b, receivedFrom = p, expiry = now + orphanExpiry cfg\<rparr>])"
  using assms by (simp add: Add_cases byBlockHash_None)

lemma Expire_length: "length (snd (Expire now pool)) \<le> length pool"
  by (simp add: Expire_def)

lemma Expire_distinct:
  "distinct (poolHashes pool) \<Longrightarrow> distinct (poolHashes (snd (Expire now pool)))"
  by (simp add: Expire_def poolHashes_def distinct_map_filter)

lemma Expire_accounts:
  "set (poolHashes (snd (Expire now pool))) \<union> set (fst (Expire now pool)) = set (poolHashes pool)"
  by (auto simp: Expire_def poolHashes_def)

lemma resolveFrom_filter:
  "\<exists>P. snd (resolveFrom queue pool) = filter P pool"
proof (induction queue pool rule: resolveFrom.induct)
  case (1 pool)
  have "snd (resolveFrom [] pool) = filter (\<lambda>e. True) pool" by simp
  then show ?case by blast
next
  case (2 h queue pool)
  define children where "children = byParentHash pool h"
  define rest where "rest = filter (\<lambda>e. entryParent e \<noteq> h) pool"
  from 2 [OF children_def rest_def] obtain P
    where P: "snd (resolveFrom (queue @ map entryHash children) rest) = filter P rest"
    by blast
  have "snd (resolveFrom (h # queue) pool) = snd (resolveFrom (queue @ map entryHash children) rest)"
    by (simp add: children_def rest_def Let_def split: prod.splits)
  also have "\<dots> = filter P rest"
    by (rule P)
  also have "\<dots> = filter (\<lambda>e. entryParent e \<noteq> h \<and> P e) pool"
    by (simp add: rest_def)
  finally show ?case by blast
qed

lemma resolveFrom_length: "length (snd (resolveFrom queue pool)) \<le> length pool"
proof -
  obtain P where "snd (resolveFrom queue pool) = filter P pool"
    using resolveFrom_filter by blast
  then show ?thesis by simp
qed

lemma resolveFrom_distinct:
  assumes "distinct (poolHashes pool)"
  shows "distinct (poolHashes (snd (resolveFrom queue pool)))"
proof -
  obtain P where "snd (resolveFrom queue pool) = filter P pool"
    using resolveFrom_filter by blast
  with assms show ?thesis by (simp add: poolHashes_def distinct_map_filter)
qed

lemma resolveFrom_accounts:
  "set (poolHashes (snd (resolveFrom queue pool))) \<union> blockHash ` set (fst (resolveFrom queue pool))
     = set (poolHashes pool)"
proof (induction queue pool rule: resolveFrom.induct)
  case (1 pool)
  show ?case by simp
next
  case (2 h queue pool)
  define children where "children = byParentHash pool h"
  define rest where "rest = filter (\<lambda>e. entryParent e \<noteq> h) pool"
  define r where "r = resolveFrom (queue @ map entryHash children) rest"
  from 2 [OF children_def rest_def]
  have IH: "set (poolHashes (snd r)) \<union> blockHash ` set (fst r) = set (poolHashes rest)"
    by (simp add: r_def)
  have unf: "resolveFrom (h # queue) pool = (map block children @ fst r, snd r)"
    by (simp add: children_def rest_def r_def Let_def split: prod.splits)
  have split: "set (poolHashes pool) = blockHash ` set (map block children) \<union> set (poolHashes rest)"
    by (auto simp: children_def rest_def byParentHash_def poolHashes_def entryHash_def)
  show ?case
    unfolding unf split using IH by auto
qed

lemma applyPoolOp_length:
  "length pool \<le> orphanCapacity cfg \<Longrightarrow> length (applyPoolOp cfg op pool) \<le> orphanCapacity cfg"
proof (cases op)
  case (Pair now o')
  assume le: "length pool \<le> orphanCapacity cfg"
  show ?thesis
  proof (cases o')
    case (OpAdd b p)
    with Pair le show ?thesis by (simp add: Add_length)
  next
    case (OpResolveChildrenOf h)
    with Pair le resolveFrom_length [of "[h]" pool] show ?thesis
      by (simp add: ResolveChildrenOf_def del: resolveFrom.simps)
  next
    case OpExpire
    with Pair le Expire_length [of now pool] show ?thesis by simp
  qed
qed

lemma applyPoolOp_distinct:
  "distinct (poolHashes pool) \<Longrightarrow> distinct (poolHashes (applyPoolOp cfg op pool))"
proof (cases op)
  case (Pair now o')
  assume d: "distinct (poolHashes pool)"
  show ?thesis
  proof (cases o')
    case (OpAdd b p)
    with Pair d show ?thesis by (simp add: Add_distinct)
  next
    case (OpResolveChildrenOf h)
    with Pair d resolveFrom_distinct [of pool "[h]"] show ?thesis
      by (simp add: ResolveChildrenOf_def del: resolveFrom.simps)
  next
    case OpExpire
    with Pair d show ?thesis by (simp add: Expire_distinct)
  qed
qed

lemma applyPoolOp_accounts:
  "set (poolHashes (applyPoolOp cfg op pool)) \<union> reported cfg op pool
     = set (poolHashes pool) \<union> offered op"
proof (cases op)
  case (Pair now o')
  show ?thesis
  proof (cases o')
    case (OpAdd b p)
    with Pair show ?thesis using Add_accounts [of cfg now b p pool] by simp
  next
    case (OpResolveChildrenOf h)
    with Pair show ?thesis using resolveFrom_accounts [of "[h]" pool]
      by (simp add: ResolveChildrenOf_def del: resolveFrom.simps)
  next
    case OpExpire
    with Pair show ?thesis using Expire_accounts [of now pool] by simp
  qed
qed

lemma runPool_invariant:
  "length pool \<le> orphanCapacity cfg \<Longrightarrow> distinct (poolHashes pool) \<Longrightarrow>
   length (runPool cfg ops pool) \<le> orphanCapacity cfg \<and> distinct (poolHashes (runPool cfg ops pool))"
proof (induction ops arbitrary: pool)
  case Nil
  then show ?case by (simp add: runPool_def)
next
  case (Cons op ops)
  have "runPool cfg (op # ops) pool = runPool cfg ops (applyPoolOp cfg op pool)"
    by (simp add: runPool_def)
  with Cons.IH [of "applyPoolOp cfg op pool"] Cons.prems show ?case
    by (simp add: applyPoolOp_length applyPoolOp_distinct)
qed

text \<open>
  C3. Whatever operations the orphan pool has gone through since it was empty, it holds no
  more entries than the configured capacity and no block twice; every operation keeps
  both properties. Nothing leaks: the hashes in the pool after an operation, together
  with those the operation reports (the evicted hash of \<open>Add\<close>, the expired hashes, the
  resolved blocks), are the hashes that were in the pool before together with the block
  offered. And \<open>Add\<close> of a new block to a full pool evicts the oldest entry and appends
  the new one, so the pool does not grow.
\<close>

theorem orphan_pool_capacity:
  "length (runPool cfg ops []) \<le> orphanCapacity cfg
   \<and> distinct (poolHashes (runPool cfg ops []))
   \<and> (length pool \<le> orphanCapacity cfg \<and> distinct (poolHashes pool) \<longrightarrow>
        length (applyPoolOp cfg op pool) \<le> orphanCapacity cfg
        \<and> distinct (poolHashes (applyPoolOp cfg op pool)))
   \<and> set (poolHashes (applyPoolOp cfg op pool)) \<union> reported cfg op pool
        = set (poolHashes pool) \<union> offered op
   \<and> (length (oldest # rest) = orphanCapacity cfg
        \<and> byBlockHash (oldest # rest) (blockHash b) = None \<longrightarrow>
        Add cfg now b p (oldest # rest)
          = (Some (entryHash oldest),
             rest @ [\<lparr>block = b, receivedFrom = p, expiry = now + orphanExpiry cfg\<rparr>]))"
  using runPool_invariant [of "[]" cfg ops] applyPoolOp_length [of pool cfg op]
    applyPoolOp_distinct [of pool cfg op] applyPoolOp_accounts [of cfg op pool]
    Add_full [of oldest rest cfg b now p]
  by (simp add: poolHashes_def)


theorem orphan_pool_capacity_witness:
  "runPool examplePoolConfig [(0, OpAdd exampleB2 5), (1, OpAdd exampleB3 5)] [] = exampleFullPool
   \<and> length exampleFullPool = orphanCapacity examplePoolConfig
   \<and> distinct (poolHashes exampleFullPool)
   \<and> byBlockHash exampleFullPool (blockHash exampleB4) = None
   \<and> Add examplePoolConfig 2 exampleB4 6 exampleFullPool
       = (Some 2, [\<lparr>block = exampleB3, receivedFrom = 5, expiry = 11\<rparr>,
                   \<lparr>block = exampleB4, receivedFrom = 6, expiry = 12\<rparr>])
   \<and> length (applyPoolOp examplePoolConfig (2, OpAdd exampleB4 6) exampleFullPool) \<le> 2
   \<and> distinct (poolHashes (applyPoolOp examplePoolConfig (2, OpAdd exampleB4 6) exampleFullPool))
   \<and> length (runPool examplePoolConfig
         [(0, OpAdd exampleB2 5), (1, OpAdd exampleB3 5), (2, OpAdd exampleB4 6),
          (3, OpAdd exampleB3 7), (11, OpExpire), (12, OpResolveChildrenOf 9)] []) \<le> 2"
proof -
  have run: "runPool examplePoolConfig [(0, OpAdd exampleB2 5), (1, OpAdd exampleB3 5)] [] = exampleFullPool"
    by (simp add: runPool_def Add_def byBlockHash_def entryHash_def examplePoolConfig_def
          exampleB2_def exampleB3_def exampleFullPool_def)
  have len: "length exampleFullPool = orphanCapacity examplePoolConfig"
    by (simp add: exampleFullPool_def examplePoolConfig_def)
  have dist: "distinct (poolHashes exampleFullPool)"
    by (simp add: exampleFullPool_def poolHashes_def entryHash_def exampleB2_def exampleB3_def)
  have new: "byBlockHash exampleFullPool (blockHash exampleB4) = None"
    by (simp add: exampleFullPool_def byBlockHash_def entryHash_def exampleB2_def exampleB3_def
          exampleB4_def)
  have ex: "exampleFullPool = \<lparr>block = exampleB2, receivedFrom = 5, expiry = 10\<rparr>
              # [\<lparr>block = exampleB3, receivedFrom = 5, expiry = 11\<rparr>]"
    by (simp add: exampleFullPool_def)
  have h2: "entryHash \<lparr>block = exampleB2, receivedFrom = 5, expiry = 10\<rparr> = 2"
    by (simp add: entryHash_def exampleB2_def)
  have e12: "2 + orphanExpiry examplePoolConfig = 12"
    by (simp add: examplePoolConfig_def)
  have c2: "orphanCapacity examplePoolConfig = 2"
    by (simp add: examplePoolConfig_def)
  note inst = orphan_pool_capacity [of examplePoolConfig
      "[(0, OpAdd exampleB2 5), (1, OpAdd exampleB3 5), (2, OpAdd exampleB4 6),
        (3, OpAdd exampleB3 7), (11, OpExpire), (12, OpResolveChildrenOf 9)]"
      exampleFullPool "(2, OpAdd exampleB4 6)"
      "\<lparr>block = exampleB2, receivedFrom = 5, expiry = 10\<rparr>"
      "[\<lparr>block = exampleB3, receivedFrom = 5, expiry = 11\<rparr>]" exampleB4 2 6]
  from inst run len dist new show ?thesis
    unfolding ex [symmetric] h2 e12 c2 by (simp del: applyPoolOp.simps)
qed

end
